theory Spec2Isabelle
  imports Main "HOL-Library.Word" "HOL-Library.Sublist"
begin

section \<open>File Integrity Checker: SHA-256 baselines in localStorage\<close>

text \<open>
  A shallow embedding of \<^verbatim>\<open>src/main.js\<close>. The program hashes a file with the
  browser's Web Crypto API, keeps the digests as "baselines" in one localStorage entry
  (a JSON array under the key \<^verbatim>\<open>integrityRecords_v1\<close>) and later compares a file's
  digest with the saved ones.

  The browser is the environment. What it supplies is a parameter of the model:
  \<^item> \<^verbatim>\<open>crypto.subtle.digest("SHA-256", buf)\<close> is a function \<open>digest\<close> from bytes to bytes;
  \<^item> \<^verbatim>\<open>crypto.randomUUID()\<close> (or its fallback) and \<^verbatim>\<open>Date.now()\<close> are the values
    \<open>new_id\<close> and \<open>now\<close> handed to \<open>addRecord\<close>;
  \<^item> the text kept by localStorage is read through \<^verbatim>\<open>JSON.parse\<close> and written through
    \<^verbatim>\<open>JSON.stringify\<close>; a stored text is represented by what \<^verbatim>\<open>JSON.parse\<close> makes of
    it (see \<open>stored_text\<close> below).
\<close>

subsection \<open>JavaScript values\<close>

text \<open>
  The values \<^verbatim>\<open>JSON.parse\<close> can return. \<^verbatim>\<open>undefined\<close> is not one of them; the result
  of a property read is a \<open>js option\<close>, with \<open>None\<close> for \<^verbatim>\<open>undefined\<close>. Every number the
  program stores (\<^verbatim>\<open>File.size\<close>, \<^verbatim>\<open>File.lastModified\<close>, \<^verbatim>\<open>Date.now()\<close>) is integral.
  An object is the list of its own properties in their order; the keys of a parsed object
  are distinct.
\<close>

datatype js =
    JNull
  | JBool bool
  | JNum int
  | JStr string
  | JArr "js list"
  | JObj "(string \<times> js) list"

datatype error = TypeError | SyntaxError | NotReadableError

text \<open>
  The property read \<^verbatim>\<open>v.k\<close>: a TypeError on \<^verbatim>\<open>null\<close>, the own property of an object,
  \<^verbatim>\<open>length\<close> of an array or a string, \<^verbatim>\<open>undefined\<close> otherwise. The program reads
  \<^verbatim>\<open>id\<close>, \<^verbatim>\<open>name\<close>, \<^verbatim>\<open>hash\<close> and \<^verbatim>\<open>length\<close>, none of which is inherited from
  a prototype of a parsed value other than as written here.
\<close>

fun get_prop :: "js \<Rightarrow> string \<Rightarrow> error + js option" where
  "get_prop JNull k = Inl TypeError"
| "get_prop (JObj kvs) k = Inr (map_of kvs k)"
| "get_prop (JArr xs) k = Inr (if k = ''length'' then Some (JNum (int (length xs))) else None)"
| "get_prop (JStr s) k = Inr (if k = ''length'' then Some (JNum (int (length s))) else None)"
| "get_prop (JBool b) k = Inr None"
| "get_prop (JNum n) k = Inr None"

text \<open>Truthiness, as \<^verbatim>\<open>if (v)\<close> and \<^verbatim>\<open>!v\<close> test it.\<close>

fun truthy :: "js option \<Rightarrow> bool" where
  "truthy None = False"
| "truthy (Some JNull) = False"
| "truthy (Some (JBool b)) = b"
| "truthy (Some (JNum n)) = (n \<noteq> 0)"
| "truthy (Some (JStr s)) = (s \<noteq> [])"
| "truthy (Some (JArr xs)) = True"
| "truthy (Some (JObj kvs)) = True"

text \<open>\<^verbatim>\<open>v === s\<close> for a string \<open>s\<close>: true exactly when \<open>v\<close> is the same string.\<close>

definition strict_eq_str :: "js option \<Rightarrow> string \<Rightarrow> bool" where
  "strict_eq_str v s = (v = Some (JStr s))"

text \<open>
  Calling an array method (\<^verbatim>\<open>push\<close>, \<^verbatim>\<open>find\<close>, \<^verbatim>\<open>filter\<close>) on a parsed value: only an
  array has one, anything else raises a TypeError.
\<close>

fun array_of :: "js \<Rightarrow> error + js list" where
  "array_of (JArr xs) = Inr xs"
| "array_of v = Inl TypeError"

text \<open>\<^verbatim>\<open>Array.prototype.find\<close> and \<^verbatim>\<open>filter\<close> with a callback that may throw.\<close>

fun find_js :: "(js \<Rightarrow> error + bool) \<Rightarrow> js list \<Rightarrow> error + js option" where
  "find_js p [] = Inr None"
| "find_js p (x # xs) =
     (case p x of
        Inl e \<Rightarrow> Inl e
      | Inr b \<Rightarrow> if b then Inr (Some x) else find_js p xs)"

fun filter_js :: "(js \<Rightarrow> error + bool) \<Rightarrow> js list \<Rightarrow> error + js list" where
  "filter_js p [] = Inr []"
| "filter_js p (x # xs) =
     (case p x of
        Inl e \<Rightarrow> Inl e
      | Inr b \<Rightarrow>
          (case filter_js p xs of
             Inl e \<Rightarrow> Inl e
           | Inr ys \<Rightarrow> Inr (if b then x # ys else ys)))"

subsection \<open>Utility: arrayBuffer to hex string\<close>

type_synonym byte = "8 word"

definition hex_digit :: "nat \<Rightarrow> char" where
  "hex_digit d = ''0123456789abcdef'' ! d"

text \<open>\<^verbatim>\<open>n.toString(16)\<close> for a non-negative integer: lowercase, no leading zero.\<close>

function toString16 :: "nat \<Rightarrow> string" where
  "toString16 n =
     (if n < 16 then [hex_digit n]
      else toString16 (n div 16) @ [hex_digit (n mod 16)])"
  by pat_completeness auto
termination
  by (relation "measure (\<lambda>n. n)") auto

declare toString16.simps [simp del]

text \<open>\<^verbatim>\<open>s.padStart(n, c)\<close> with a one-character pad string.\<close>

definition padStart :: "nat \<Rightarrow> char \<Rightarrow> string \<Rightarrow> string" where
  "padStart n c s = replicate (n - length s) c @ s"

text \<open>The loop of \<^verbatim>\<open>toHex\<close>: one two-digit string pushed per byte, then joined.\<close>

fun toHex_loop :: "byte list \<Rightarrow> string list \<Rightarrow> string list" where
  "toHex_loop [] hex = hex"
| "toHex_loop (b # bytes) hex =
     toHex_loop bytes (hex @ [padStart 2 (CHR ''0'') (toString16 (unat b))])"

definition toHex :: "byte list \<Rightarrow> string" where
  "toHex buffer = concat (toHex_loop buffer [])"

subsection \<open>SHA-256 of a file\<close>

text \<open>
  A \<^verbatim>\<open>File\<close>: its name, size and modification time, and its bytes, \<open>None\<close> when
  \<^verbatim>\<open>file.arrayBuffer()\<close> rejects because the file cannot be read.
\<close>

record jsfile =
  file_name :: string
  file_size :: int
  file_lastModified :: int
  file_bytes :: "byte list option"

definition arrayBuffer :: "jsfile \<Rightarrow> error + byte list" where
  "arrayBuffer f = (case file_bytes f of None \<Rightarrow> Inl NotReadableError | Some B \<Rightarrow> Inr B)"

definition sha256OfFile :: "(byte list \<Rightarrow> byte list) \<Rightarrow> jsfile \<Rightarrow> error + string" where
  "sha256OfFile digest f =
     (case arrayBuffer f of
        Inl e \<Rightarrow> Inl e
      | Inr arrayBuf \<Rightarrow> Inr (toHex (digest arrayBuf)))"

subsection \<open>Conversions to text\<close>

text \<open>
  A message template \<^verbatim>\<open>${v}\<close>, \<^verbatim>\<open>new Date(v)\<close> and \<^verbatim>\<open>v / 1024\<close> convert \<open>v\<close> to a
  primitive. For a parsed value that throws a TypeError exactly when an object owns a
  property \<^verbatim>\<open>toString\<close> (never callable in parsed data); an array converts its
  elements through \<^verbatim>\<open>join\<close>.
\<close>

fun converts :: "js \<Rightarrow> bool" where
  "converts (JObj kvs) = (map_of kvs ''toString'' = None)"
| "converts (JArr xs) = list_all converts xs"
| "converts v = True"

text \<open>The properties \<open>ks\<close> of \<open>r\<close>, read in turn and converted for a message.\<close>

fun interpolate :: "js \<Rightarrow> string list \<Rightarrow> error + unit" where
  "interpolate r [] = Inr ()"
| "interpolate r (k # ks) =
     (case get_prop r k of
        Inl e \<Rightarrow> Inl e
      | Inr None \<Rightarrow> interpolate r ks
      | Inr (Some v) \<Rightarrow> if converts v then interpolate r ks else Inl TypeError)"

text \<open>\<^verbatim>\<open>s.replaceAll(c, t)\<close> for a one-character pattern.\<close>

fun replaceAll :: "char \<Rightarrow> string \<Rightarrow> string \<Rightarrow> string" where
  "replaceAll c t [] = []"
| "replaceAll c t (x # xs) = (if x = c then t @ replaceAll c t xs else x # replaceAll c t xs)"

text \<open>
  \<^verbatim>\<open>escapeHtml(s)\<close>: \<^verbatim>\<open>s ?? ""\<close>, then four replacements. A value that is neither
  nullish nor a string has no \<^verbatim>\<open>replaceAll\<close>, and the call raises a TypeError.
\<close>

definition escapeHtml :: "js option \<Rightarrow> error + string" where
  "escapeHtml s =
     (case s of
        None \<Rightarrow> Inr []
      | Some JNull \<Rightarrow> Inr []
      | Some (JStr t) \<Rightarrow>
          Inr (replaceAll (CHR 0x22) ''&quot;''
                (replaceAll (CHR ''>'') ''&gt;''
                  (replaceAll (CHR ''<'') ''&lt;''
                    (replaceAll (CHR ''&'') ''&amp;'' t))))
      | Some v \<Rightarrow> Inl TypeError)"

subsection \<open>LocalStorage helpers\<close>

text \<open>
  The text stored under \<^verbatim>\<open>STORE_KEY\<close>, represented by what \<^verbatim>\<open>JSON.parse\<close> does with it:
  the empty text, a non-empty text that \<^verbatim>\<open>JSON.parse\<close> rejects with a SyntaxError, or a
  text that it reads as the given value. \<^verbatim>\<open>JSON.stringify\<close> writes a text that reads
  back as the value it was given. The entry itself is a \<open>stored_text option\<close>:
  \<open>None\<close> when the key is absent and \<^verbatim>\<open>getItem\<close> returns \<^verbatim>\<open>null\<close>. Writing always
  succeeds: a full storage medium is not modelled.
\<close>

datatype stored_text = Empty_text | Invalid_text | Json_text js

type_synonym storage = "stored_text option"

definition JSON_parse :: "stored_text \<Rightarrow> error + js" where
  "JSON_parse raw = (case raw of Json_text v \<Rightarrow> Inr v | _ \<Rightarrow> Inl SyntaxError)"

definition JSON_stringify :: "js \<Rightarrow> stored_text" where
  "JSON_stringify v = Json_text v"

definition loadRecords :: "storage \<Rightarrow> js" where
  "loadRecords st =
     (case st of
        None \<Rightarrow> JArr []
      | Some raw \<Rightarrow>
          if raw = Empty_text then JArr []
          else (case JSON_parse raw of Inl e \<Rightarrow> JArr [] | Inr v \<Rightarrow> v))"

definition saveRecords :: "js \<Rightarrow> storage \<Rightarrow> storage" where
  "saveRecords list st = Some (JSON_stringify list)"

subsection \<open>Render saved records in table\<close>

text \<open>
  \<^verbatim>\<open>renderRecords\<close> writes only the table's HTML, which is not part of the model; what
  is kept is whether it throws. One row reads \<^verbatim>\<open>savedAt\<close>, \<^verbatim>\<open>size\<close>, \<^verbatim>\<open>name\<close>,
  \<^verbatim>\<open>hash\<close> and \<^verbatim>\<open>id\<close> of the record.
\<close>

definition render_row :: "js \<Rightarrow> error + unit" where
  "render_row r =
     (case interpolate r [''savedAt'', ''size''] of
        Inl e \<Rightarrow> Inl e
      | Inr u \<Rightarrow>
          (case get_prop r ''name'' of
             Inl e \<Rightarrow> Inl e
           | Inr n \<Rightarrow>
               (case escapeHtml n of
                  Inl e \<Rightarrow> Inl e
                | Inr t \<Rightarrow> interpolate r [''hash'', ''hash'', ''id'', ''id''])))"

fun render_rows :: "js list \<Rightarrow> error + unit" where
  "render_rows [] = Inr ()"
| "render_rows (r # rs) = (case render_row r of Inl e \<Rightarrow> Inl e | Inr u \<Rightarrow> render_rows rs)"

definition renderRecords :: "storage \<Rightarrow> error + unit" where
  "renderRecords st =
     (let list = loadRecords st in
      case get_prop list ''length'' of
        Inl e \<Rightarrow> Inl e
      | Inr len \<Rightarrow>
          if \<not> truthy len then Inr ()
          else (case array_of list of Inl e \<Rightarrow> Inl e | Inr rs \<Rightarrow> render_rows rs))"

subsection \<open>Add, delete, clear\<close>

text \<open>
  \<^verbatim>\<open>addRecord({ name, size, lastModified, hash })\<close>. \<open>id'\<close> is the value of
  \<^verbatim>\<open>crypto.randomUUID ? crypto.randomUUID() : String(Date.now() + Math.random())\<close> and
  \<open>now\<close> that of \<^verbatim>\<open>Date.now()\<close>; \<open>baseline\<close> is the object literal pushed onto the
  list. Each operation returns the storage it leaves and either the exception it throws
  or its result.
\<close>

definition baseline :: "string \<Rightarrow> string \<Rightarrow> int \<Rightarrow> int \<Rightarrow> string \<Rightarrow> int \<Rightarrow> js" where
  "baseline id' name size' lastModified hash savedAt =
     JObj [(''id'', JStr id'),
           (''name'', JStr name),
           (''size'', JNum size'),
           (''lastModified'', JNum lastModified),
           (''hash'', JStr hash),
           (''savedAt'', JNum savedAt)]"

definition addRecord ::
  "string \<Rightarrow> int \<Rightarrow> string \<Rightarrow> int \<Rightarrow> int \<Rightarrow> string \<Rightarrow> storage \<Rightarrow> storage \<times> (error + string)" where
  "addRecord id' now name size' lastModified hash st =
     (let list = loadRecords st in
      case array_of list of
        Inl e \<Rightarrow> (st, Inl e)
      | Inr rs \<Rightarrow>
          (let list' = JArr (rs @ [baseline id' name size' lastModified hash now]);
               st' = saveRecords list' st
           in case renderRecords st' of
                Inl e \<Rightarrow> (st', Inl e)
              | Inr u \<Rightarrow> (st', Inr id')))"

text \<open>The callbacks \<^verbatim>\<open>r => r.id === id\<close>, \<^verbatim>\<open>r => r.hash === currentHash\<close> and
  \<^verbatim>\<open>r => r.name === f.name\<close>.\<close>

definition has_field :: "string \<Rightarrow> string \<Rightarrow> js \<Rightarrow> error + bool" where
  "has_field k s r =
     (case get_prop r k of Inl e \<Rightarrow> Inl e | Inr v \<Rightarrow> Inr (strict_eq_str v s))"

text \<open>The callback \<^verbatim>\<open>r => r.id !== id\<close> of \<^verbatim>\<open>deleteRecord\<close>.\<close>

definition other_id :: "string \<Rightarrow> js \<Rightarrow> error + bool" where
  "other_id id' r =
     (case get_prop r ''id'' of Inl e \<Rightarrow> Inl e | Inr v \<Rightarrow> Inr (\<not> strict_eq_str v id'))"

definition deleteRecord :: "string \<Rightarrow> storage \<Rightarrow> storage \<times> (error + unit)" where
  "deleteRecord id' st =
     (case array_of (loadRecords st) of
        Inl e \<Rightarrow> (st, Inl e)
      | Inr rs \<Rightarrow>
          (case filter_js (other_id id') rs of
             Inl e \<Rightarrow> (st, Inl e)
           | Inr list \<Rightarrow>
               (let st' = saveRecords (JArr list) st in (st', renderRecords st'))))"

definition clearAllRecords :: "storage \<Rightarrow> storage \<times> (error + unit)" where
  "clearAllRecords st = (let st' = None in (st', renderRecords st'))"

text \<open>The export: \<^verbatim>\<open>JSON.stringify(loadRecords(), null, 2)\<close>, the same value indented.\<close>

definition btnExport :: "storage \<Rightarrow> stored_text" where
  "btnExport st = JSON_stringify (loadRecords st)"

subsection \<open>Verify flow\<close>

text \<open>
  What a handler shows in the result box. Each constructor stands for one message and
  carries the data the message is built from.
\<close>

datatype outcome =
    Choose_file
  | No_baselines string
  | Match js string
  | No_match_same_name "js list" string
  | No_match string
  | Quick_match js string
  | Quick_mismatch js string
  | Failed error

text \<open>
  \<open>findByDigest\<close> and \<open>findByName\<close> are the two searches of the handler, named as the
  specification names them: \<^verbatim>\<open>list.find(r => r.hash === currentHash)\<close> and
  \<^verbatim>\<open>list.filter(r => r.name === f.name)\<close>.
\<close>

definition findByDigest :: "string \<Rightarrow> js list \<Rightarrow> error + js option" where
  "findByDigest digest' list = find_js (has_field ''hash'' digest') list"

definition findByName :: "string \<Rightarrow> js list \<Rightarrow> error + js list" where
  "findByName name list = filter_js (has_field ''name'' name) list"

text \<open>The \<^verbatim>\<open>else\<close> branch of the handler: the "closest by name" hint.\<close>

fun message_rows :: "js list \<Rightarrow> error + unit" where
  "message_rows [] = Inr ()"
| "message_rows (r # rs) =
     (case interpolate r [''name'', ''hash''] of Inl e \<Rightarrow> Inl e | Inr u \<Rightarrow> message_rows rs)"

definition verify_no_match :: "jsfile \<Rightarrow> js list \<Rightarrow> string \<Rightarrow> error + outcome" where
  "verify_no_match f rs currentHash =
     (case findByName (file_name f) rs of
        Inl e \<Rightarrow> Inl e
      | Inr sameName \<Rightarrow>
          if sameName \<noteq> [] then
            (case message_rows sameName of
               Inl e \<Rightarrow> Inl e
             | Inr u \<Rightarrow> Inr (No_match_same_name sameName currentHash))
          else Inr (No_match currentHash))"

text \<open>The body of the \<^verbatim>\<open>try\<close> block.\<close>

definition verify_try :: "(byte list \<Rightarrow> byte list) \<Rightarrow> jsfile \<Rightarrow> storage \<Rightarrow> error + outcome" where
  "verify_try digest f st =
     (case sha256OfFile digest f of
        Inl e \<Rightarrow> Inl e
      | Inr currentHash \<Rightarrow>
          (let list = loadRecords st in
           case get_prop list ''length'' of
             Inl e \<Rightarrow> Inl e
           | Inr len \<Rightarrow>
               if \<not> truthy len then Inr (No_baselines currentHash)
               else
                 (case array_of list of
                    Inl e \<Rightarrow> Inl e
                  | Inr rs \<Rightarrow>
                      (case findByDigest currentHash rs of
                         Inl e \<Rightarrow> Inl e
                       | Inr None \<Rightarrow> verify_no_match f rs currentHash
                       | Inr (Some match) \<Rightarrow>
                           if truthy (Some match) then
                             (case interpolate match [''name'', ''savedAt''] of
                                Inl e \<Rightarrow> Inl e
                              | Inr u \<Rightarrow> Inr (Match match currentHash))
                           else verify_no_match f rs currentHash))))"

definition btnVerify :: "(byte list \<Rightarrow> byte list) \<Rightarrow> jsfile option \<Rightarrow> storage \<Rightarrow> outcome" where
  "btnVerify digest files st =
     (case files of
        None \<Rightarrow> Choose_file
      | Some f \<Rightarrow> (case verify_try digest f st of Inl e \<Rightarrow> Failed e | Inr out \<Rightarrow> out))"

subsection \<open>Quick verify\<close>

text \<open>
  The \<^verbatim>\<open>change\<close> listener of the quick-verify file input, for the button whose
  \<^verbatim>\<open>data-id\<close> is \<open>id'\<close>. \<open>Inl\<close> is an exception that leaves the listener (the search
  runs before the \<^verbatim>\<open>try\<close>), \<open>Inr None\<close> a return that shows nothing.
\<close>

definition quick_try :: "(byte list \<Rightarrow> byte list) \<Rightarrow> jsfile \<Rightarrow> js \<Rightarrow> error + outcome" where
  "quick_try digest f rec =
     (case sha256OfFile digest f of
        Inl e \<Rightarrow> Inl e
      | Inr h \<Rightarrow>
          (case get_prop rec ''hash'' of
             Inl e \<Rightarrow> Inl e
           | Inr v \<Rightarrow>
               if strict_eq_str v h then
                 (case interpolate rec [''name'', ''savedAt''] of
                    Inl e \<Rightarrow> Inl e
                  | Inr u \<Rightarrow> Inr (Quick_match rec h))
               else
                 (case interpolate rec [''name'', ''hash''] of
                    Inl e \<Rightarrow> Inl e
                  | Inr u \<Rightarrow> Inr (Quick_mismatch rec h))))"

definition quick_verify ::
  "(byte list \<Rightarrow> byte list) \<Rightarrow> string \<Rightarrow> jsfile option \<Rightarrow> storage \<Rightarrow> error + outcome option" where
  "quick_verify digest id' files st =
     (case files of
        None \<Rightarrow> Inr None
      | Some f \<Rightarrow>
          (case array_of (loadRecords st) of
             Inl e \<Rightarrow> Inl e
           | Inr rs \<Rightarrow>
               (case find_js (has_field ''id'' id') rs of
                  Inl e \<Rightarrow> Inl e
                | Inr None \<Rightarrow> Inr None
                | Inr (Some rec) \<Rightarrow>
                    if \<not> truthy (Some rec) then Inr None
                    else Inr (Some (case quick_try digest f rec of
                                      Inl e \<Rightarrow> Failed e
                                    | Inr out \<Rightarrow> out)))))"

subsection \<open>Baseline records and the states the program reaches\<close>

text \<open>The JSON types of a parsed value.\<close>

datatype kind = Null_kind | Boolean_kind | Number_kind | String_kind | Array_kind | Object_kind

fun kind_of :: "js \<Rightarrow> kind" where
  "kind_of JNull = Null_kind"
| "kind_of (JBool b) = Boolean_kind"
| "kind_of (JNum n) = Number_kind"
| "kind_of (JStr s) = String_kind"
| "kind_of (JArr xs) = Array_kind"
| "kind_of (JObj kvs) = Object_kind"

text \<open>A baseline record as \<open>addRecord\<close> writes it: six fields, in this order.\<close>

definition is_baseline :: "js \<Rightarrow> bool" where
  "is_baseline r =
     (case r of
        JObj kvs \<Rightarrow>
          map (\<lambda>(k, v). (k, kind_of v)) kvs =
            [(''id'', String_kind), (''name'', String_kind), (''size'', Number_kind),
             (''lastModified'', Number_kind), (''hash'', String_kind), (''savedAt'', Number_kind)]
      | _ \<Rightarrow> False)"

text \<open>The persisted layout: no entry, or one entry holding an array of baseline records.\<close>

definition baseline_store :: "storage \<Rightarrow> bool" where
  "baseline_store st =
     (case st of
        None \<Rightarrow> True
      | Some (Json_text (JArr rs)) \<Rightarrow> list_all is_baseline rs
      | Some _ \<Rightarrow> False)"

text \<open>
  The field names of a record as the specification lists them:
  \<^verbatim>\<open>{id, name, size, lastModified, digest, savedAt}\<close>.
\<close>

definition spec_fields :: "js \<Rightarrow> bool" where
  "spec_fields r =
     (case r of
        JObj kvs \<Rightarrow>
          set (map fst kvs) =
            set [''id'', ''name'', ''size'', ''lastModified'', ''digest'', ''savedAt'']
      | _ \<Rightarrow> False)"

text \<open>
  The storage states the program reaches from a profile without the entry, by saving,
  deleting and clearing.
\<close>

inductive reachable :: "storage \<Rightarrow> bool" where
  init: "reachable None"
| add: "reachable st \<Longrightarrow> reachable (fst (addRecord id' now name size' lastModified hash st))"
| delete: "reachable st \<Longrightarrow> reachable (fst (deleteRecord id' st))"
| clear: "reachable st \<Longrightarrow> reachable (fst (clearAllRecords st))"

subsection \<open>The decision procedure as the specification words it\<close>

text \<open>
  The four steps of the verification algorithm over the computed digest, the candidate's
  file name and the records of the store, with the field reads of the specification's
  data model.
\<close>

definition digest_is :: "string \<Rightarrow> js \<Rightarrow> bool" where
  "digest_is d r = (get_prop r ''hash'' = Inr (Some (JStr d)))"

definition name_is :: "string \<Rightarrow> js \<Rightarrow> bool" where
  "name_is n r = (get_prop r ''name'' = Inr (Some (JStr n)))"

definition id_is :: "string \<Rightarrow> js \<Rightarrow> bool" where
  "id_is i r = (get_prop r ''id'' = Inr (Some (JStr i)))"

definition spec_verify :: "string \<Rightarrow> string \<Rightarrow> js list \<Rightarrow> outcome" where
  "spec_verify d n rs =
     (if rs = [] then No_baselines d
      else (case List.find (digest_is d) rs of
              Some m \<Rightarrow> Match m d
            | None \<Rightarrow>
                if filter (name_is n) rs \<noteq> [] then No_match_same_name (filter (name_is n) rs) d
                else No_match d))"

subsection \<open>Example inputs\<close>

text \<open>
  A stand-in for the platform's digest function with a 32-byte result, and a readable
  file with the given name and bytes, for evaluating the handlers on concrete inputs.
\<close>

definition ex_digest :: "byte list \<Rightarrow> byte list" where
  "ex_digest B = replicate 32 (of_nat (length B))"

definition ex_file :: "string \<Rightarrow> byte list \<Rightarrow> jsfile" where
  "ex_file n B =
     \<lparr>file_name = n, file_size = int (length B), file_lastModified = 0, file_bytes = Some B\<rparr>"

definition ex_bytes32 :: "byte list" where
  "ex_bytes32 =
     [0, 10, 255, 16, 1, 2, 3, 4, 5, 6, 7, 8, 9, 11, 12, 13,
      14, 15, 17, 32, 64, 127, 128, 129, 160, 171, 205, 239, 240, 254, 100, 200]"

subsection \<open>Notions of the specification\<close>

text \<open>
  The two hexadecimal digits of one byte, the high four bits first: a byte below 16 gets
  the leading digit \<^verbatim>\<open>0\<close>.
\<close>

definition two_digits :: "byte \<Rightarrow> string" where
  "two_digits b = [hex_digit (unat b div 16), hex_digit (unat b mod 16)]"


definition lower_hex :: "char \<Rightarrow> bool" where
  "lower_hex c = (c \<in> set ''0123456789abcdef'')"

section \<open>Properties\<close>

subsection \<open>The hex encoding\<close>

lemma hex_digit_lower: "d < 16 \<Longrightarrow> lower_hex (hex_digit d)"
proof -
  have all: "list_all (\<lambda>d. lower_hex (hex_digit d)) [0..<16]"
    by (simp add: upt_rec hex_digit_def lower_hex_def)
  assume "d < 16"
  then have "d \<in> set [0..<16]" by simp
  with all show ?thesis
    unfolding list_all_iff by blast
qed

lemma toString16_byte:
  assumes "n < 256"
  shows "length (toString16 n) \<le> 2 \<and> toString16 n \<noteq> [] \<and> list_all lower_hex (toString16 n)"
proof (cases "n < 16")
  case True
  then show ?thesis
    by (simp add: toString16.simps [of n] hex_digit_lower)
next
  case False
  with assms have q: "n div 16 < 16" by simp
  have r: "n mod 16 < 16" by simp
  from False q show ?thesis
    by (simp add: toString16.simps [of n] toString16.simps [of "n div 16"]
        hex_digit_lower [OF q] hex_digit_lower [OF r])
qed

lemma pad_byte:
  "length (padStart 2 (CHR ''0'') (toString16 (unat (b :: byte)))) = 2
   \<and> list_all lower_hex (padStart 2 (CHR ''0'') (toString16 (unat b)))"
proof -
  have "unat b < 256"
    using unsigned_less [of b] by simp
  from toString16_byte [OF this]
  have l: "length (toString16 (unat b)) \<le> 2" and ne: "toString16 (unat b) \<noteq> []"
    and h: "list_all lower_hex (toString16 (unat b))" by simp_all
  have z: "lower_hex (CHR ''0'')" by (simp add: lower_hex_def)
  from l ne have "length (padStart 2 (CHR ''0'') (toString16 (unat b))) = 2"
    by (simp add: padStart_def)
  moreover from h z have "list_all lower_hex (padStart 2 (CHR ''0'') (toString16 (unat b)))"
    by (auto simp: padStart_def list_all_iff)
  ultimately show ?thesis by simp
qed

lemma toHex_loop_map:
  "toHex_loop bytes hex =
     hex @ map (\<lambda>b. padStart 2 (CHR ''0'') (toString16 (unat b))) bytes"
  by (induction bytes arbitrary: hex) simp_all

lemma toHex_length: "length (toHex buffer) = 2 * length buffer"
  by (induction buffer) (simp_all add: toHex_def toHex_loop_map pad_byte)

lemma toHex_lower: "list_all lower_hex (toHex buffer)"
  by (induction buffer) (simp_all add: toHex_def toHex_loop_map pad_byte)

lemma pad_byte_digits:
  "padStart 2 (CHR ''0'') (toString16 (unat (b :: byte))) = two_digits b"
proof -
  have lt: "unat b < 256"
    using unsigned_less [of b] by simp
  have z: "hex_digit 0 = CHR ''0''" by (simp add: hex_digit_def)
  show ?thesis
  proof (cases "unat b < 16")
    case True
    then show ?thesis
      by (simp add: toString16.simps [of "unat b"] padStart_def two_digits_def z)
  next
    case False
    with lt have q: "unat b div 16 < 16" by simp
    from False q show ?thesis
      by (simp add: toString16.simps [of "unat b"] toString16.simps [of "unat b div 16"]
          padStart_def two_digits_def)
  qed
qed

lemma toHex_per_byte: "toHex buffer = concat (map two_digits buffer)"
  by (simp add: toHex_def toHex_loop_map pad_byte_digits)

lemma hex_digit_inj:
  assumes "a < 16" and "b < 16" and "hex_digit a = hex_digit b"
  shows "a = b"
proof -
  have all: "list_all (\<lambda>a. list_all (\<lambda>b. hex_digit a = hex_digit b \<longrightarrow> a = b) [0..<16]) [0..<16]"
    by (simp add: upt_rec hex_digit_def)
  from assms(1,2) have "a \<in> set [0..<16]" "b \<in> set [0..<16]" by simp_all
  with all assms(3) show ?thesis
    unfolding list_all_iff by blast
qed

lemma two_digits_inj: "two_digits a = two_digits b \<Longrightarrow> a = b"
proof -
  assume e: "two_digits a = two_digits b"
  have la: "unat a < 256" using unsigned_less [of a] by simp
  have lb: "unat b < 256" using unsigned_less [of b] by simp
  from la have qa: "unat a div 16 < 16" by simp
  from lb have qb: "unat b div 16 < 16" by simp
  from e have "hex_digit (unat a div 16) = hex_digit (unat b div 16)"
    and "hex_digit (unat a mod 16) = hex_digit (unat b mod 16)"
    by (simp_all add: two_digits_def)
  then have "unat a div 16 = unat b div 16" and "unat a mod 16 = unat b mod 16"
    using qa qb by (auto intro: hex_digit_inj)
  then have "unat a = unat b"
    by (metis div_mult_mod_eq)
  then show "a = b" by (simp add: word_unat_eq_iff)
qed

lemma toHex_inj: "toHex a = toHex b \<Longrightarrow> a = b"
proof (induction a arbitrary: b)
  case Nil
  then show ?case by (cases b) (simp_all add: toHex_per_byte two_digits_def)
next
  case (Cons x xs)
  show ?case
  proof (cases b)
    case Nil
    with Cons.prems show ?thesis by (simp add: toHex_per_byte two_digits_def)
  next
    case (Cons y ys)
    with Cons.prems have "two_digits x @ toHex xs = two_digits y @ toHex ys"
      by (simp add: toHex_per_byte)
    then have "two_digits x = two_digits y" and "toHex xs = toHex ys"
      by (simp_all add: two_digits_def)
    with Cons.IH Cons show ?thesis by (simp add: two_digits_inj)
  qed
qed

lemma digits_at:
  "k < length bs \<Longrightarrow> take 2 (drop (2 * k) (concat (map two_digits bs))) = two_digits (bs ! k)"
proof (induction bs arbitrary: k)
  case Nil
  then show ?case by simp
next
  case (Cons b bs)
  show ?case
  proof (cases k)
    case 0
    then show ?thesis by (simp add: two_digits_def)
  next
    case (Suc j)
    with Cons.prems have "j < length bs" by simp
    then have "take 2 (drop (2 * j) (concat (map two_digits bs))) = two_digits (bs ! j)"
      by (rule Cons.IH)
    moreover have "length (two_digits b) = 2" by (simp add: two_digits_def)
    ultimately show ?thesis using Suc by simp
  qed
qed

subsection \<open>Baseline records\<close>

lemma kind_string: "kind_of v = String_kind \<Longrightarrow> \<exists>s. v = JStr s"
  by (cases v) simp_all

lemma kind_number: "kind_of v = Number_kind \<Longrightarrow> \<exists>n. v = JNum n"
  by (cases v) simp_all

lemma kinds_Cons:
  assumes "map (\<lambda>(k, v). (k, kind_of v)) kvs = (k0, t) # rest"
  obtains v kvs' where "kvs = (k0, v) # kvs'" and "kind_of v = t"
    and "map (\<lambda>(k, v). (k, kind_of v)) kvs' = rest"
  using assms by (cases kvs) auto

lemma is_baseline_form:
  assumes "is_baseline r"
  shows "\<exists>i n s l h t. r = baseline i n s l h t"
proof -
  from assms obtain kvs where r: "r = JObj kvs"
    and m: "map (\<lambda>(k, v). (k, kind_of v)) kvs =
            [(''id'', String_kind), (''name'', String_kind), (''size'', Number_kind),
             (''lastModified'', Number_kind), (''hash'', String_kind), (''savedAt'', Number_kind)]"
    by (cases r) (simp_all add: is_baseline_def)
  from m obtain v1 r1 where 1: "kvs = (''id'', v1) # r1" "kind_of v1 = String_kind"
    and m1: "map (\<lambda>(k, v). (k, kind_of v)) r1 = [(''name'', String_kind), (''size'', Number_kind),
             (''lastModified'', Number_kind), (''hash'', String_kind), (''savedAt'', Number_kind)]"
    by (rule kinds_Cons)
  from m1 obtain v2 r2 where 2: "r1 = (''name'', v2) # r2" "kind_of v2 = String_kind"
    and m2: "map (\<lambda>(k, v). (k, kind_of v)) r2 = [(''size'', Number_kind),
             (''lastModified'', Number_kind), (''hash'', String_kind), (''savedAt'', Number_kind)]"
    by (rule kinds_Cons)
  from m2 obtain v3 r3 where 3: "r2 = (''size'', v3) # r3" "kind_of v3 = Number_kind"
    and m3: "map (\<lambda>(k, v). (k, kind_of v)) r3 = [
             (''lastModified'', Number_kind), (''hash'', String_kind), (''savedAt'', Number_kind)]"
    by (rule kinds_Cons)
  from m3 obtain v4 r4 where 4: "r3 = (''lastModified'', v4) # r4" "kind_of v4 = Number_kind"
    and m4: "map (\<lambda>(k, v). (k, kind_of v)) r4 = [(''hash'', String_kind), (''savedAt'', Number_kind)]"
    by (rule kinds_Cons)
  from m4 obtain v5 r5 where 5: "r4 = (''hash'', v5) # r5" "kind_of v5 = String_kind"
    and m5: "map (\<lambda>(k, v). (k, kind_of v)) r5 = [(''savedAt'', Number_kind)]"
    by (rule kinds_Cons)
  from m5 obtain v6 r6 where 6: "r5 = (''savedAt'', v6) # r6" "kind_of v6 = Number_kind"
    and m6: "map (\<lambda>(k, v). (k, kind_of v)) r6 = []"
    by (rule kinds_Cons)
  from m6 have e: "r6 = []" by simp
  from 1(2) obtain i where i: "v1 = JStr i" using kind_string by blast
  from 2(2) obtain n where n: "v2 = JStr n" using kind_string by blast
  from 3(2) obtain s where s: "v3 = JNum s" using kind_number by blast
  from 4(2) obtain l where l: "v4 = JNum l" using kind_number by blast
  from 5(2) obtain h where h: "v5 = JStr h" using kind_string by blast
  from 6(2) obtain t where t: "v6 = JNum t" using kind_number by blast
  have "r = baseline i n s l h t"
    unfolding r 1(1) 2(1) 3(1) 4(1) 5(1) 6(1) e i n s l h t baseline_def ..
  then show ?thesis by blast
qed

lemma baseline_not_null: "is_baseline r \<Longrightarrow> r \<noteq> JNull"
  by (auto simp: is_baseline_def)

lemma baseline_render_row: "is_baseline r \<Longrightarrow> render_row r = Inr ()"
  by (drule is_baseline_form) (auto simp: render_row_def escapeHtml_def baseline_def)

lemma baseline_render_rows: "list_all is_baseline rs \<Longrightarrow> render_rows rs = Inr ()"
  by (induction rs) (simp_all add: baseline_render_row)

lemma baseline_message_rows: "list_all is_baseline rs \<Longrightarrow> message_rows rs = Inr ()"
proof (induction rs)
  case Nil
  show ?case by simp
next
  case (Cons r rs)
  then have "is_baseline r" by simp
  then have "interpolate r [''name'', ''hash''] = Inr ()"
    by (drule_tac is_baseline_form) (auto simp: baseline_def)
  with Cons show ?case by simp
qed

lemma baseline_match_message:
  "is_baseline r \<Longrightarrow> interpolate r [''name'', ''savedAt''] = Inr ()"
  by (drule is_baseline_form) (auto simp: baseline_def)

lemma baseline_mismatch_message:
  "is_baseline r \<Longrightarrow> interpolate r [''name'', ''hash''] = Inr ()"
  by (drule is_baseline_form) (auto simp: baseline_def)

lemma render_saved:
  "list_all is_baseline rs \<Longrightarrow> renderRecords (saveRecords (JArr rs) st) = Inr ()"
  by (cases rs)
    (simp_all add: renderRecords_def loadRecords_def saveRecords_def JSON_stringify_def
      JSON_parse_def baseline_render_rows baseline_render_row)

lemma load_saved: "loadRecords (saveRecords v st) = v"
  by (simp add: loadRecords_def saveRecords_def JSON_stringify_def JSON_parse_def)

lemma has_field_read:
  "r \<noteq> JNull \<Longrightarrow> has_field k s r = Inr (get_prop r k = Inr (Some (JStr s)))"
  by (cases r) (simp_all add: has_field_def strict_eq_str_def)

lemma other_id_read:
  "r \<noteq> JNull \<Longrightarrow> other_id i r = Inr (\<not> id_is i r)"
  by (cases r) (simp_all add: other_id_def strict_eq_str_def id_is_def)

lemma find_js_total:
  "\<forall>r\<in>set rs. p r = Inr (q r) \<Longrightarrow> find_js p rs = Inr (List.find q rs)"
  by (induction rs) simp_all

lemma filter_js_total:
  "\<forall>r\<in>set rs. p r = Inr (q r) \<Longrightarrow> filter_js p rs = Inr (filter q rs)"
  by (induction rs) simp_all

lemma load_absent_or_unreadable:
  "loadRecords None = JArr []" "loadRecords (Some Empty_text) = JArr []"
  "loadRecords (Some Invalid_text) = JArr []"
  by (simp_all add: loadRecords_def JSON_parse_def)

subsection \<open>Digest of a file\<close>

text \<open>
  C8. For every byte sequence \<open>B\<close> the digest computation returns a string \<open>h\<close> of exactly
  64 lowercase hexadecimal characters. Each of the 32 bytes the platform's SHA-256
  returns is written as its own two digits, the high four bits first and a leading
  \<^verbatim>\<open>0\<close> for a byte below 16: the characters \<open>2k\<close> and \<open>2k + 1\<close> of \<open>h\<close> are the digits
  of byte \<open>k\<close>. The computation is deterministic, every file with the bytes \<open>B\<close> yields
  \<open>h\<close>, and the encoding loses nothing: a file that yields \<open>h\<close> has the same digest bytes.
\<close>

theorem sha256OfFile_hex64:
  assumes "file_bytes f = Some B" and "length (digest B) = 32"
  shows "\<exists>h. sha256OfFile digest f = Inr h \<and> length h = 64 \<and> list_all lower_hex h
           \<and> h = toHex (digest B)
           \<and> h = concat (map (\<lambda>b. [hex_digit (unat b div 16), hex_digit (unat b mod 16)]) (digest B))
           \<and> (\<forall>k<32. take 2 (drop (2 * k) h) =
                  [hex_digit (unat (digest B ! k) div 16), hex_digit (unat (digest B ! k) mod 16)])
           \<and> (\<forall>f'. file_bytes f' = Some B \<longrightarrow> sha256OfFile digest f' = Inr h)
           \<and> (\<forall>f' B'. file_bytes f' = Some B' \<and> sha256OfFile digest f' = Inr h
                  \<longrightarrow> digest B' = digest B)"
proof -
  let ?h = "toHex (digest B)"
  from assms(1) have s: "sha256OfFile digest f = Inr ?h"
    by (simp add: sha256OfFile_def arrayBuffer_def)
  from assms(2) have len: "length ?h = 64"
    by (simp add: toHex_length)
  have low: "list_all lower_hex ?h"
    by (rule toHex_lower)
  have per: "?h = concat (map (\<lambda>b. [hex_digit (unat b div 16), hex_digit (unat b mod 16)]) (digest B))"
    using toHex_per_byte [of "digest B"] by (simp add: two_digits_def [abs_def])
  have at: "\<forall>k<32. take 2 (drop (2 * k) ?h) =
                  [hex_digit (unat (digest B ! k) div 16), hex_digit (unat (digest B ! k) mod 16)]"
    using assms(2) by (simp add: toHex_per_byte digits_at two_digits_def)
  have det: "\<forall>f'. file_bytes f' = Some B \<longrightarrow> sha256OfFile digest f' = Inr ?h"
    by (simp add: sha256OfFile_def arrayBuffer_def)
  have inj: "\<forall>f' B'. file_bytes f' = Some B' \<and> sha256OfFile digest f' = Inr ?h
                  \<longrightarrow> digest B' = digest B"
    by (auto simp: sha256OfFile_def arrayBuffer_def dest: toHex_inj)
  from s len low per at det inj show ?thesis by blast
qed

text \<open>
  Thirty-two bytes, among them \<^verbatim>\<open>0x00\<close>, \<^verbatim>\<open>0x0a\<close>, \<^verbatim>\<open>0xff\<close> and \<^verbatim>\<open>0x10\<close>, each in
  its own place with its own padding.
\<close>

theorem sha256OfFile_hex64_witness:
  "sha256OfFile (\<lambda>B. ex_bytes32) (ex_file ''a.txt'' [1, 2, 3])
     = Inr ''000aff100102030405060708090b0c0d0e0f1120407f8081a0abcdeff0fe64c8''"
proof -
  have b: "file_bytes (ex_file ''a.txt'' [1, 2, 3]) = Some [1, 2, 3]"
    by (simp add: ex_file_def)
  have l: "length ((\<lambda>B :: byte list. ex_bytes32) [1, 2, 3]) = 32"
    by (simp add: ex_bytes32_def)
  from sha256OfFile_hex64 [of "ex_file ''a.txt'' [1, 2, 3]" "[1, 2, 3]" "\<lambda>B. ex_bytes32", OF b l]
  obtain h where s: "sha256OfFile (\<lambda>B. ex_bytes32) (ex_file ''a.txt'' [1, 2, 3]) = Inr h"
    and p: "h = concat (map (\<lambda>b. [hex_digit (unat b div 16), hex_digit (unat b mod 16)]) ex_bytes32)"
    by blast
  have "concat (map (\<lambda>b. [hex_digit (unat b div 16), hex_digit (unat b mod 16)]) ex_bytes32)
      = ''000aff100102030405060708090b0c0d0e0f1120407f8081a0abcdeff0fe64c8''"
    by (simp add: ex_bytes32_def hex_digit_def)
  with s p show ?thesis by simp
qed

text \<open>The padding keeps \<^verbatim>\<open>0x0a\<close> as \<^verbatim>\<open>0a\<close>, as the comment in \<^verbatim>\<open>toHex\<close> says.\<close>

lemma toHex_example: "toHex [10, 255, 0, 16] = ''0aff0010''"
  by code_simp

subsection \<open>Reading the stored entry\<close>

text \<open>
  C3. The specification has \<^verbatim>\<open>list()\<close> return the empty sequence, never \<^verbatim>\<open>null\<close>, for
  an entry that is absent or cannot be read back as a record collection. The code at the
  stored text \<^verbatim>\<open>null\<close>, which is valid JSON and no record collection: \<open>loadRecords\<close>
  returns \<^verbatim>\<open>null\<close>, and \<open>renderRecords\<close>, which reads \<^verbatim>\<open>list.length\<close>, throws a
  TypeError.
\<close>

theorem loadRecords_null_text:
  "loadRecords (Some (Json_text JNull)) = JNull
   \<and> loadRecords (Some (Json_text JNull)) \<noteq> JArr []
   \<and> renderRecords (Some (Json_text JNull)) = Inl TypeError"
  by (simp add: loadRecords_def JSON_parse_def renderRecords_def)

subsection \<open>Clearing the store\<close>

text \<open>
  C6. For every store contents, \<^verbatim>\<open>clear()\<close> removes all records unconditionally: it
  removes the entry without an error, and \<^verbatim>\<open>list()\<close> afterwards yields the empty
  sequence.
\<close>

theorem clear_then_list_empty:
  "clearAllRecords st = (None, Inr ()) \<and> loadRecords (fst (clearAllRecords st)) = JArr []"
  by (simp add: clearAllRecords_def renderRecords_def loadRecords_def)

lemma is_baseline_baseline: "is_baseline (baseline i n s l h t)"
  by (simp add: is_baseline_def baseline_def)

lemma baseline_truthy: "is_baseline r \<Longrightarrow> truthy (Some r)"
  by (drule is_baseline_form) (auto simp: baseline_def)

lemma find_by_hash:
  "list_all is_baseline rs \<Longrightarrow> findByDigest d rs = Inr (List.find (digest_is d) rs)"
  unfolding findByDigest_def
  by (rule find_js_total) (simp add: list_all_iff has_field_read baseline_not_null digest_is_def)

lemma filter_by_name:
  "list_all is_baseline rs \<Longrightarrow> findByName n rs = Inr (filter (name_is n) rs)"
  unfolding findByName_def
  by (rule filter_js_total) (simp add: list_all_iff has_field_read baseline_not_null name_is_def)

lemma find_in_set: "List.find P xs = Some x \<Longrightarrow> x \<in> set xs"
  by (induction xs) (auto split: if_splits)

lemma verify_no_match_baselines:
  assumes "list_all is_baseline rs"
  shows "verify_no_match f rs d =
     Inr (if filter (name_is (file_name f)) rs \<noteq> []
          then No_match_same_name (filter (name_is (file_name f)) rs) d else No_match d)"
proof -
  from assms have "list_all is_baseline (filter (name_is (file_name f)) rs)"
    by (simp add: list_all_iff)
  then have "message_rows (filter (name_is (file_name f)) rs) = Inr ()"
    by (rule baseline_message_rows)
  with assms show ?thesis
    by (simp add: verify_no_match_def filter_by_name)
qed

subsection \<open>The verify flow\<close>

text \<open>
  C1. For every candidate file whose bytes can be read and every store of baseline
  records, the Verify handler follows the four-step decision procedure \<open>spec_verify\<close>
  on the computed digest, the file's name and the records: "no baselines" with the digest
  when the store is empty; otherwise MATCH with the first record in stored order whose
  digest equals the computed one; otherwise NO-MATCH-BUT-SAME-NAME with exactly the
  records whose name is the file's name, when there are any; otherwise NO-MATCH.
\<close>

theorem verify_decision:
  assumes "file_bytes f = Some B" and "loadRecords st = JArr rs" and "list_all is_baseline rs"
  shows "btnVerify digest (Some f) st = spec_verify (toHex (digest B)) (file_name f) rs"
proof -
  let ?d = "toHex (digest B)"
  from assms(1) have h: "sha256OfFile digest f = Inr ?d"
    by (simp add: sha256OfFile_def arrayBuffer_def)
  show ?thesis
  proof (cases "rs = []")
    case True
    with h assms(2) show ?thesis
      by (simp add: btnVerify_def verify_try_def spec_verify_def)
  next
    case False
    note ne = this
    show ?thesis
    proof (cases "List.find (digest_is ?d) rs")
      case None
      with h assms ne show ?thesis
        by (simp add: btnVerify_def verify_try_def spec_verify_def find_by_hash
            verify_no_match_baselines)
    next
      case (Some m)
      then have "m \<in> set rs" by (rule find_in_set)
      with assms(3) have m: "is_baseline m" by (simp add: list_all_iff)
      from m have i: "interpolate m [''name'', ''savedAt''] = Inr ()"
        by (rule baseline_match_message)
      from m have t: "truthy (Some m)"
        by (rule baseline_truthy)
      from h assms ne Some i t show ?thesis
        by (simp add: btnVerify_def verify_try_def spec_verify_def find_by_hash)
    qed
  qed
qed

text \<open>
  Two records carry the computed digest; the first in stored order is reported, whatever
  its name.
\<close>

theorem verify_decision_witness:
  "btnVerify ex_digest (Some (ex_file ''c.txt'' [1, 2, 3]))
     (Some (Json_text (JArr
        [baseline ''u1'' ''a.txt'' 10 0 ''00'' 5,
         baseline ''u2'' ''b.txt'' 3 0 (toHex (ex_digest [1, 2, 3])) 6,
         baseline ''u3'' ''c.txt'' 3 0 (toHex (ex_digest [1, 2, 3])) 7])))
   = Match (baseline ''u2'' ''b.txt'' 3 0 (toHex (ex_digest [1, 2, 3])) 6) (toHex (ex_digest [1, 2, 3]))"
proof -
  let ?rs = "[baseline ''u1'' ''a.txt'' 10 0 ''00'' 5,
         baseline ''u2'' ''b.txt'' 3 0 (toHex (ex_digest [1, 2, 3])) 6,
         baseline ''u3'' ''c.txt'' 3 0 (toHex (ex_digest [1, 2, 3])) 7]"
  have b: "file_bytes (ex_file ''c.txt'' [1, 2, 3]) = Some [1, 2, 3]"
    by (simp add: ex_file_def)
  have l: "loadRecords (Some (Json_text (JArr ?rs))) = JArr ?rs"
    by (simp add: loadRecords_def JSON_parse_def)
  have a: "list_all is_baseline ?rs"
    by (simp add: is_baseline_baseline)
  have d: "toHex (ex_digest [1, 2, 3]) \<noteq> ''00''"
    by code_simp
  from d have "spec_verify (toHex (ex_digest [1, 2, 3])) (file_name (ex_file ''c.txt'' [1, 2, 3])) ?rs
     = Match (baseline ''u2'' ''b.txt'' 3 0 (toHex (ex_digest [1, 2, 3])) 6) (toHex (ex_digest [1, 2, 3]))"
    by (simp add: spec_verify_def digest_is_def baseline_def)
  with verify_decision [OF b l a, of ex_digest] show ?thesis by simp
qed

subsection \<open>Searching by digest\<close>

text \<open>
  C7. For every digest string and every store whose records can be read (none is
  \<^verbatim>\<open>null\<close>), \<open>findByDigest\<close> returns the first record in stored order whose digest is
  the very string given (strings are compared character by character, so case matters),
  and none when no record's digest equals it.
\<close>

theorem findByDigest_first:
  assumes "JNull \<notin> set rs"
  shows "\<exists>m. findByDigest d rs = Inr m \<and>
           (case m of
              None \<Rightarrow> \<forall>r\<in>set rs. \<not> digest_is d r
            | Some r \<Rightarrow> \<exists>i<length rs. rs ! i = r \<and> digest_is d r \<and> (\<forall>j<i. \<not> digest_is d (rs ! j)))"
proof -
  have "\<forall>r\<in>set rs. has_field ''hash'' d r = Inr (digest_is d r)"
  proof
    fix r assume "r \<in> set rs"
    with assms have "r \<noteq> JNull" by auto
    then show "has_field ''hash'' d r = Inr (digest_is d r)"
      by (simp add: has_field_read digest_is_def)
  qed
  then have f: "findByDigest d rs = Inr (List.find (digest_is d) rs)"
    unfolding findByDigest_def by (rule find_js_total)
  show ?thesis
  proof (cases "List.find (digest_is d) rs")
    case None
    with f show ?thesis by (simp add: find_None_iff)
  next
    case (Some r)
    then have "\<exists>i<length rs. digest_is d (rs ! i) \<and> r = rs ! i \<and> (\<forall>j<i. \<not> digest_is d (rs ! j))"
      by (simp add: find_Some_iff)
    with f Some show ?thesis by auto
  qed
qed

text \<open>
  The digest \<^verbatim>\<open>AB\<close> of the first record differs from \<^verbatim>\<open>ab\<close> by case only and is
  passed over; of the two records with the digest \<^verbatim>\<open>ab\<close> the earlier one is returned.
\<close>

theorem findByDigest_first_witness:
  "findByDigest ''ab''
     [baseline ''u1'' ''a.txt'' 1 0 ''AB'' 5, baseline ''u2'' ''b.txt'' 2 0 ''ab'' 6,
      baseline ''u3'' ''c.txt'' 3 0 ''ab'' 7]
   = Inr (Some (baseline ''u2'' ''b.txt'' 2 0 ''ab'' 6))"
proof -
  let ?rs = "[baseline ''u1'' ''a.txt'' 1 0 ''AB'' 5, baseline ''u2'' ''b.txt'' 2 0 ''ab'' 6,
      baseline ''u3'' ''c.txt'' 3 0 ''ab'' 7]"
  have n: "JNull \<notin> set ?rs" by (simp add: baseline_def)
  have 0: "\<not> digest_is ''ab'' (?rs ! 0)" by (simp add: digest_is_def baseline_def)
  have 1: "digest_is ''ab'' (?rs ! 1)" by (simp add: digest_is_def baseline_def)
  from findByDigest_first [OF n, of "''ab''"] obtain m where
    f: "findByDigest ''ab'' ?rs = Inr m" and
    c: "case m of
              None \<Rightarrow> \<forall>r\<in>set ?rs. \<not> digest_is ''ab'' r
            | Some r \<Rightarrow> \<exists>i<length ?rs. ?rs ! i = r \<and> digest_is ''ab'' r
                 \<and> (\<forall>j<i. \<not> digest_is ''ab'' (?rs ! j))"
    by blast
  show ?thesis
  proof (cases m)
    case None
    with c have "\<not> digest_is ''ab'' (?rs ! 1)" by simp
    with 1 show ?thesis by simp
  next
    case (Some r)
    with c obtain i where i: "i < length ?rs" "?rs ! i = r" "digest_is ''ab'' r"
      "\<forall>j<i. \<not> digest_is ''ab'' (?rs ! j)" by auto
    from i(4) 1 have "\<not> 1 < i" by blast
    moreover from i(2,3) 0 have "i \<noteq> 0" by (cases i) auto
    ultimately have "i = 1" by simp
    with i(2) have "r = ?rs ! 1" by simp
    with f Some show ?thesis by simp
  qed
qed

subsection \<open>Quick verify\<close>

lemma find_first_after:
  "\<forall>r\<in>set pre. \<not> P r \<Longrightarrow> P x \<Longrightarrow> List.find P (pre @ x # post) = Some x"
  by (induction pre) simp_all

lemma find_by_id:
  "list_all is_baseline rs \<Longrightarrow> find_js (has_field ''id'' i) rs = Inr (List.find (id_is i) rs)"
  by (rule find_js_total) (simp add: list_all_iff has_field_read baseline_not_null id_is_def)

lemma quick_try_baseline:
  assumes "file_bytes f = Some B" and "is_baseline rec"
  shows "quick_try digest f rec =
     Inr (if digest_is (toHex (digest B)) rec then Quick_match rec (toHex (digest B))
          else Quick_mismatch rec (toHex (digest B)))"
proof -
  from assms(1) have h: "sha256OfFile digest f = Inr (toHex (digest B))"
    by (simp add: sha256OfFile_def arrayBuffer_def)
  from assms(2) have n: "rec \<noteq> JNull" by (rule baseline_not_null)
  then obtain v where v: "get_prop rec ''hash'' = Inr v" by (cases rec) simp_all
  from assms(2) have m: "interpolate rec [''name'', ''savedAt''] = Inr ()"
    by (rule baseline_match_message)
  from assms(2) have mm: "interpolate rec [''name'', ''hash''] = Inr ()"
    by (rule baseline_mismatch_message)
  from h v m mm show ?thesis
    by (simp add: quick_try_def digest_is_def strict_eq_str_def)
qed

text \<open>
  C9. For every pre-selected record (the first record of the store with the id of the
  button) and every candidate file whose bytes can be read, quick-verify compares the
  computed digest with that record's digest alone: MATCH when they are equal, MISMATCH
  otherwise. The records before and after it have no part in the outcome, and there is
  no same-name hint.
\<close>

theorem quick_verify_binary:
  assumes "file_bytes f = Some B"
    and "loadRecords st = JArr (pre @ rec # post)"
    and "list_all is_baseline (pre @ rec # post)"
    and "id_is i rec" and "\<forall>r\<in>set pre. \<not> id_is i r"
  shows "quick_verify digest i (Some f) st =
     Inr (Some (if digest_is (toHex (digest B)) rec then Quick_match rec (toHex (digest B))
                else Quick_mismatch rec (toHex (digest B))))"
proof -
  from assms(3) have r: "is_baseline rec" by simp
  from assms(5,4) have "List.find (id_is i) (pre @ rec # post) = Some rec"
    by (rule find_first_after)
  with assms(3) have f: "find_js (has_field ''id'' i) (pre @ rec # post) = Inr (Some rec)"
    by (simp only: find_by_id)
  from r have t: "truthy (Some rec)" by (rule baseline_truthy)
  from assms(2) f t show ?thesis
    by (simp add: quick_verify_def quick_try_baseline [OF assms(1) r])
qed

text \<open>
  The selected record \<^verbatim>\<open>u2\<close> has another digest: MISMATCH, although two other records
  carry the computed digest and one of them the file's name.
\<close>

theorem quick_verify_binary_witness:
  "quick_verify ex_digest ''u2'' (Some (ex_file ''a.txt'' [1, 2, 3]))
     (Some (Json_text (JArr
        [baseline ''u1'' ''x.txt'' 3 0 (toHex (ex_digest [1, 2, 3])) 5,
         baseline ''u2'' ''b.txt'' 9 0 ''00'' 6,
         baseline ''u3'' ''a.txt'' 3 0 (toHex (ex_digest [1, 2, 3])) 7])))
   = Inr (Some (Quick_mismatch (baseline ''u2'' ''b.txt'' 9 0 ''00'' 6) (toHex (ex_digest [1, 2, 3]))))"
proof -
  let ?pre = "[baseline ''u1'' ''x.txt'' 3 0 (toHex (ex_digest [1, 2, 3])) 5]"
  let ?rec = "baseline ''u2'' ''b.txt'' 9 0 ''00'' 6"
  let ?post = "[baseline ''u3'' ''a.txt'' 3 0 (toHex (ex_digest [1, 2, 3])) 7]"
  have b: "file_bytes (ex_file ''a.txt'' [1, 2, 3]) = Some [1, 2, 3]"
    by (simp add: ex_file_def)
  have l: "loadRecords (Some (Json_text (JArr (?pre @ ?rec # ?post)))) = JArr (?pre @ ?rec # ?post)"
    by (simp add: loadRecords_def JSON_parse_def)
  have a: "list_all is_baseline (?pre @ ?rec # ?post)"
    by (simp add: is_baseline_baseline)
  have i: "id_is ''u2'' ?rec" by (simp add: id_is_def baseline_def)
  have p: "\<forall>r\<in>set ?pre. \<not> id_is ''u2'' r" by (simp add: id_is_def baseline_def)
  have d: "toHex (ex_digest [1, 2, 3]) \<noteq> ''00''"
    by code_simp
  then have n: "\<not> digest_is (toHex (ex_digest [1, 2, 3])) ?rec"
    by (simp add: digest_is_def baseline_def)
  from quick_verify_binary [OF b l a i p, of ex_digest] n show ?thesis by simp
qed

subsection \<open>Adding a record\<close>

lemma addRecord_baselines:
  assumes "loadRecords st = JArr rs" and "list_all is_baseline rs"
  shows "addRecord i now n s l h st =
           (Some (Json_text (JArr (rs @ [baseline i n s l h now]))), Inr i)"
proof -
  from assms(2) have "list_all is_baseline (rs @ [baseline i n s l h now])"
    by (simp add: is_baseline_baseline)
  then have "renderRecords (saveRecords (JArr (rs @ [baseline i n s l h now])) st) = Inr ()"
    by (rule render_saved)
  with assms(1) show ?thesis
    by (simp add: addRecord_def Let_def saveRecords_def JSON_stringify_def)
qed

lemma load_json_text: "loadRecords (Some (Json_text v)) = v"
  by (simp add: loadRecords_def JSON_parse_def)




subsection \<open>Deleting a record\<close>

lemma filter_other_id:
  "list_all is_baseline rs \<Longrightarrow>
     filter_js (other_id i) rs = Inr (filter (\<lambda>r. \<not> id_is i r) rs)"
  by (rule filter_js_total) (simp add: list_all_iff other_id_read baseline_not_null)

lemma deleteRecord_baselines:
  assumes "loadRecords st = JArr rs" and "list_all is_baseline rs"
  shows "deleteRecord i st = (Some (Json_text (JArr (filter (\<lambda>r. \<not> id_is i r) rs))), Inr ())"
proof -
  from assms(2) have "list_all is_baseline (filter (\<lambda>r. \<not> id_is i r) rs)"
    by (simp add: list_all_iff)
  then have "renderRecords (saveRecords (JArr (filter (\<lambda>r. \<not> id_is i r) rs)) st) = Inr ()"
    by (rule render_saved)
  with assms show ?thesis
    by (simp add: deleteRecord_def filter_other_id Let_def saveRecords_def JSON_stringify_def)
qed



text \<open>
  C10. For every store of baseline records and every id, \<open>deleteRecord\<close> removes every
  record with that id, not only the first: what \<^verbatim>\<open>list()\<close> yields afterwards is the
  former list without the records of that id, the others in their former order and
  themselves unchanged.
\<close>

theorem deleteRecord_every_match:
  assumes "loadRecords st = JArr rs" and "list_all is_baseline rs"
  shows "\<exists>rs'. loadRecords (fst (deleteRecord i st)) = JArr rs'
           \<and> rs' = filter (\<lambda>r. \<not> id_is i r) rs
           \<and> subseq rs' rs
           \<and> set rs' = {r \<in> set rs. \<not> id_is i r}
           \<and> length rs' + length (filter (id_is i) rs) = length rs"
proof -
  let ?rs' = "filter (\<lambda>r. \<not> id_is i r) rs"
  from assms have "deleteRecord i st = (Some (Json_text (JArr ?rs')), Inr ())"
    by (rule deleteRecord_baselines)
  then have l: "loadRecords (fst (deleteRecord i st)) = JArr ?rs'"
    by (simp add: load_json_text)
  have c: "length ?rs' + length (filter (id_is i) rs) = length rs"
    using sum_length_filter_compl [of "id_is i" rs] by simp
  from l c show ?thesis by (intro exI [of _ ?rs']) simp
qed

text \<open>Two records share the id \<^verbatim>\<open>u1\<close>; both go, and \<^verbatim>\<open>u2\<close> stays before \<^verbatim>\<open>u3\<close>.\<close>

theorem deleteRecord_every_match_witness:
  "loadRecords (fst (deleteRecord ''u1''
      (Some (Json_text (JArr [baseline ''u1'' ''a.txt'' 10 0 ''00'' 5,
                              baseline ''u2'' ''b.txt'' 3 1 ''ab'' 7,
                              baseline ''u1'' ''c.txt'' 4 2 ''cd'' 8,
                              baseline ''u3'' ''d.txt'' 5 3 ''ef'' 9])))))
   = JArr [baseline ''u2'' ''b.txt'' 3 1 ''ab'' 7, baseline ''u3'' ''d.txt'' 5 3 ''ef'' 9]"
proof -
  let ?rs = "[baseline ''u1'' ''a.txt'' 10 0 ''00'' 5,
                              baseline ''u2'' ''b.txt'' 3 1 ''ab'' 7,
                              baseline ''u1'' ''c.txt'' 4 2 ''cd'' 8,
                              baseline ''u3'' ''d.txt'' 5 3 ''ef'' 9]"
  have l: "loadRecords (Some (Json_text (JArr ?rs))) = JArr ?rs"
    by (simp add: loadRecords_def JSON_parse_def)
  have a: "list_all is_baseline ?rs"
    by (simp add: is_baseline_baseline)
  have f: "filter (\<lambda>r. \<not> id_is ''u1'' r) ?rs
     = [baseline ''u2'' ''b.txt'' 3 1 ''ab'' 7, baseline ''u3'' ''d.txt'' 5 3 ''ef'' 9]"
    by (simp add: id_is_def baseline_def)
  from deleteRecord_every_match [OF l a, of "''u1''"] f show ?thesis
    by simp
qed

subsection \<open>The persisted layout\<close>

lemma spec_fields_digest:
  assumes "spec_fields (JObj kvs)"
  shows "''digest'' \<in> set (map fst kvs)"
proof -
  from assms have eq: "set (map fst kvs) =
      set [''id'', ''name'', ''size'', ''lastModified'', ''digest'', ''savedAt'']"
    by (simp only: spec_fields_def js.case)
  have "''digest'' \<in> set [''id'', ''name'', ''size'', ''lastModified'', ''digest'', ''savedAt'']"
    by simp
  with eq show ?thesis by (simp only:)
qed

lemma baseline_store_load:
  "baseline_store st \<Longrightarrow> \<exists>rs. loadRecords st = JArr rs \<and> list_all is_baseline rs"
  by (auto simp: baseline_store_def loadRecords_def JSON_parse_def
      split: option.splits stored_text.splits js.splits)

lemma baseline_store_json: "list_all is_baseline rs \<Longrightarrow> baseline_store (Some (Json_text (JArr rs)))"
  by (simp add: baseline_store_def)

lemma reachable_baseline_store: "reachable st \<Longrightarrow> baseline_store st"
proof (induction rule: reachable.induct)
  case init
  show ?case by (simp add: baseline_store_def)
next
  case (add st i now n s l h)
  then obtain rs where rs: "loadRecords st = JArr rs" "list_all is_baseline rs"
    using baseline_store_load by blast
  then have "fst (addRecord i now n s l h st) = Some (Json_text (JArr (rs @ [baseline i n s l h now])))"
    by (simp add: addRecord_baselines)
  with rs(2) show ?case
    by (simp add: baseline_store_def is_baseline_baseline)
next
  case (delete st i)
  then obtain rs where rs: "loadRecords st = JArr rs" "list_all is_baseline rs"
    using baseline_store_load by blast
  then have "fst (deleteRecord i st) = Some (Json_text (JArr (filter (\<lambda>r. \<not> id_is i r) rs)))"
    by (simp add: deleteRecord_baselines)
  with rs(2) show ?case
    by (simp add: baseline_store_def list_all_iff)
next
  case (clear st)
  show ?case by (simp add: clearAllRecords_def baseline_store_def)
qed

text \<open>
  C2, as the specification words it, has every persisted record carry exactly the fields
  \<^verbatim>\<open>{id, name, size, lastModified, digest, savedAt}\<close>. The record that \<open>addRecord\<close>
  persists into an empty profile has no field \<^verbatim>\<open>digest\<close>: the digest is stored under
  \<^verbatim>\<open>hash\<close>, the name every reader of the program uses.
\<close>

theorem persisted_fields_counterexample:
  "fst (addRecord ''u1'' 7 ''a.txt'' 10 5 ''ab'' None)
       = Some (Json_text (JArr [JObj [(''id'', JStr ''u1''), (''name'', JStr ''a.txt''),
           (''size'', JNum 10), (''lastModified'', JNum 5), (''hash'', JStr ''ab''),
           (''savedAt'', JNum 7)]]))
   \<and> \<not> spec_fields (JObj [(''id'', JStr ''u1''), (''name'', JStr ''a.txt''),
           (''size'', JNum 10), (''lastModified'', JNum 5), (''hash'', JStr ''ab''),
           (''savedAt'', JNum 7)])"
proof -
  have e: "fst (addRecord ''u1'' 7 ''a.txt'' 10 5 ''ab'' None)
       = Some (Json_text (JArr [JObj [(''id'', JStr ''u1''), (''name'', JStr ''a.txt''),
           (''size'', JNum 10), (''lastModified'', JNum 5), (''hash'', JStr ''ab''),
           (''savedAt'', JNum 7)]]))"
    by (simp add: addRecord_baselines [of None "[]"] loadRecords_def baseline_def)
  have n: "\<not> spec_fields (JObj [(''id'', JStr ''u1''), (''name'', JStr ''a.txt''),
           (''size'', JNum 10), (''lastModified'', JNum 5), (''hash'', JStr ''ab''),
           (''savedAt'', JNum 7)])"
  proof
    assume "spec_fields (JObj [(''id'', JStr ''u1''), (''name'', JStr ''a.txt''),
           (''size'', JNum 10), (''lastModified'', JNum 5), (''hash'', JStr ''ab''),
           (''savedAt'', JNum 7)])"
    then have "''digest'' \<in> set (map fst [(''id'', JStr ''u1''), (''name'', JStr ''a.txt''),
           (''size'', JNum 10), (''lastModified'', JNum 5), (''hash'', JStr ''ab''),
           (''savedAt'', JNum 7)])"
      by (rule spec_fields_digest)
    then show False by simp
  qed
  from e n show ?thesis by simp
qed

lemma reachable_load:
  "reachable st \<Longrightarrow> \<exists>rs. loadRecords st = JArr rs \<and> list_all is_baseline rs"
  by (rule baseline_store_load) (rule reachable_baseline_store)

text \<open>
  C2, amended. In every state the program reaches from a profile without the entry, by
  saving, deleting and clearing, the persisted state is no entry or a single entry
  holding a JSON array, and every record of it, and of the export, is a JSON object with
  exactly the fields \<^verbatim>\<open>id\<close>, \<^verbatim>\<open>name\<close>, \<^verbatim>\<open>size\<close>, \<^verbatim>\<open>lastModified\<close>, \<^verbatim>\<open>hash\<close>,
  \<^verbatim>\<open>savedAt\<close>, of which \<^verbatim>\<open>id\<close>, \<^verbatim>\<open>name\<close> and \<^verbatim>\<open>hash\<close> are strings and \<^verbatim>\<open>size\<close>,
  \<^verbatim>\<open>lastModified\<close> and \<^verbatim>\<open>savedAt\<close> are numbers.
\<close>

theorem persisted_layout:
  assumes "reachable st"
  shows "baseline_store st
         \<and> (\<exists>rs. btnExport st = Json_text (JArr rs) \<and> list_all is_baseline rs)"
proof -
  from assms have b: "baseline_store st" by (rule reachable_baseline_store)
  then obtain rs where "loadRecords st = JArr rs" "list_all is_baseline rs"
    using baseline_store_load by blast
  with b show ?thesis by (simp add: btnExport_def JSON_stringify_def)
qed

theorem persisted_layout_witness:
  "baseline_store (fst (addRecord ''u1'' 7 ''a.txt'' 10 5 ''ab'' None))
   \<and> fst (addRecord ''u1'' 7 ''a.txt'' 10 5 ''ab'' None)
       = Some (Json_text (JArr [JObj [(''id'', JStr ''u1''), (''name'', JStr ''a.txt''),
           (''size'', JNum 10), (''lastModified'', JNum 5), (''hash'', JStr ''ab''),
           (''savedAt'', JNum 7)]]))"
proof -
  have r: "reachable (fst (addRecord ''u1'' 7 ''a.txt'' 10 5 ''ab'' None))"
    by (rule reachable.add) (rule reachable.init)
  have e: "fst (addRecord ''u1'' 7 ''a.txt'' 10 5 ''ab'' None)
       = Some (Json_text (JArr [JObj [(''id'', JStr ''u1''), (''name'', JStr ''a.txt''),
           (''size'', JNum 10), (''lastModified'', JNum 5), (''hash'', JStr ''ab''),
           (''savedAt'', JNum 7)]]))"
    by (simp add: addRecord_baselines [of None "[]"] loadRecords_def baseline_def)
  from persisted_layout [OF r] e show ?thesis by simp
qed

end
